theory Spec2Isabelle
  imports Complex_Main "HOL-Library.Word" "HOL-Library.Log_Nat"
begin

section \<open>Machine arithmetic of the program\<close>

subsection \<open>The type \<open>double\<close>: IEEE 754 binary64, round to nearest, ties to even\<close>

text \<open>
  A \<open>double\<close> is a finite value (a sign and a magnitude, so that \<open>+0.0\<close> and \<open>-0.0\<close>
  are different values), an infinity with its sign, or a NaN (payloads are not
  distinguished).  A finite magnitude is a non-negative rational of the form
  \<open>n * 2 ^ e\<close> with \<open>n < 2 ^ 53\<close> and \<open>- 1074 \<le> e \<le> 971\<close>; every operation below
  returns such a value, because it rounds its exact result with \<open>dround\<close>.  Each
  operation of the source rounds on its own: no product is fused with a sum, and no
  intermediate result is kept in a wider format.
\<close>

datatype double = Finite bool rat | Infinity bool | NaN

definition pow2 :: "int \<Rightarrow> rat" where
  "pow2 k = (if 0 \<le> k then 2 ^ nat k else 1 / 2 ^ nat (- k))"

text \<open>\<open>ilog2 r\<close> is the binary exponent of \<open>r > 0\<close>: the \<open>k\<close> with \<open>2 ^ k \<le> r < 2 ^ (k + 1)\<close>.\<close>

definition ilog2 :: "rat \<Rightarrow> int" where
  "ilog2 r = (if 1 \<le> r then bitlen \<lfloor>r\<rfloor> - 1 else - bitlen (\<lceil>1 / r\<rceil> - 1))"

text \<open>Rounding to the nearest integer, a tie going to the even neighbour.\<close>

definition rne :: "rat \<Rightarrow> int" where
  "rne x = (let f = \<lfloor>x\<rfloor>; d = x - of_int f
            in if d < 1 / 2 then f else if 1 / 2 < d then f + 1
               else if even f then f else f + 1)"

text \<open>
  Rounding a magnitude \<open>r > 0\<close> to 53 significant bits: the spacing of the doubles around
  \<open>r\<close> is \<open>2 ^ (e - 52)\<close> for the exponent \<open>e\<close> of \<open>r\<close>, and \<open>2 ^ (- 1074)\<close> in the
  subnormal range.
\<close>

definition round_mag :: "rat \<Rightarrow> rat" where
  "round_mag r = (let q = pow2 (max (ilog2 r) (- 1022) - 52) in of_int (rne (r / q)) * q)"

text \<open>The double of sign \<open>s\<close> nearest to the magnitude \<open>r \<ge> 0\<close>; overflow gives an infinity.\<close>

definition dround :: "bool \<Rightarrow> rat \<Rightarrow> double" where
  "dround s r = (if r = 0 then Finite s 0
                 else let m = round_mag r in if pow2 1024 \<le> m then Infinity s else Finite s m)"

text \<open>A decimal literal of the source denotes the double nearest to it.\<close>

definition double_lit :: "rat \<Rightarrow> double" where
  "double_lit r = dround (r < 0) \<bar>r\<bar>"

fun valof :: "double \<Rightarrow> rat" where
  "valof (Finite s m) = (if s then - m else m)"
| "valof (Infinity s) = 0"
| "valof NaN = 0"

fun is_finite :: "double \<Rightarrow> bool" where
  "is_finite (Finite s m) = True"
| "is_finite (Infinity s) = False"
| "is_finite NaN = False"

fun dneg :: "double \<Rightarrow> double" where
  "dneg (Finite s m) = Finite (\<not> s) m"
| "dneg (Infinity s) = Infinity (\<not> s)"
| "dneg NaN = NaN"

text \<open>\<open>a * b\<close> on doubles.\<close>

fun dmul :: "double \<Rightarrow> double \<Rightarrow> double" where
  "dmul NaN b = NaN"
| "dmul a NaN = NaN"
| "dmul (Infinity s) (Infinity t) = Infinity (s \<noteq> t)"
| "dmul (Infinity s) (Finite t n) = (if n = 0 then NaN else Infinity (s \<noteq> t))"
| "dmul (Finite s m) (Infinity t) = (if m = 0 then NaN else Infinity (s \<noteq> t))"
| "dmul (Finite s m) (Finite t n) = dround (s \<noteq> t) (m * n)"

text \<open>
  \<open>a + b\<close> on doubles.  An exact sum of zero is \<open>+0.0\<close>, except that
  \<open>-0.0 + -0.0\<close> is \<open>-0.0\<close>.
\<close>

fun dadd :: "double \<Rightarrow> double \<Rightarrow> double" where
  "dadd NaN b = NaN"
| "dadd a NaN = NaN"
| "dadd (Infinity s) (Infinity t) = (if s = t then Infinity s else NaN)"
| "dadd (Infinity s) (Finite t n) = Infinity s"
| "dadd (Finite s m) (Infinity t) = Infinity t"
| "dadd (Finite s m) (Finite t n) =
     (let r = valof (Finite s m) + valof (Finite t n)
      in if r = 0 then Finite (s \<and> t) 0 else dround (r < 0) \<bar>r\<bar>)"

text \<open>\<open>a - b\<close> on doubles is \<open>a + (- b)\<close>.\<close>

definition dsub :: "double \<Rightarrow> double \<Rightarrow> double" where
  "dsub a b = dadd a (dneg b)"

text \<open>\<open>a > b\<close> on doubles: false as soon as one side is a NaN.\<close>

fun dgt :: "double \<Rightarrow> double \<Rightarrow> bool" where
  "dgt NaN b = False"
| "dgt a NaN = False"
| "dgt (Infinity s) (Infinity t) = (\<not> s \<and> t)"
| "dgt (Infinity s) (Finite t n) = (\<not> s)"
| "dgt (Finite s m) (Infinity t) = t"
| "dgt (Finite s m) (Finite t n) = (valof (Finite t n) < valof (Finite s m))"

text \<open>\<open>0.0\<close>, and \<open>std::numeric_limits<double>::lowest()\<close>, which is \<open>- (2 ^ 53 - 1) * 2 ^ 971\<close>.\<close>

definition dzero :: double where
  "dzero = Finite False 0"

definition lowest :: double where
  "lowest = Finite True ((2 ^ 53 - 1) * 2 ^ 971)"

subsection \<open>The type \<open>int\<close>: 32 bits, two's complement\<close>

text \<open>
  An \<open>int\<close> is a 32-bit word read as a signed number by \<open>sint\<close>.  Subtraction on words
  wraps around; the source's \<open>orders - demand\<close> has no defined result when it leaves the
  range of \<open>int\<close>, which cannot happen for two non-negative operands.
\<close>

type_synonym cint = "32 word"

text \<open>\<open>std::min(a, b)\<close> is \<open>(b < a) ? b : a\<close>, \<open>std::max(a, b)\<close> is \<open>(a < b) ? b : a\<close>.\<close>

definition int_min :: "cint \<Rightarrow> cint \<Rightarrow> cint" where
  "int_min a b = (if word_sless b a then b else a)"

definition int_max :: "cint \<Rightarrow> cint \<Rightarrow> cint" where
  "int_max a b = (if word_sless a b then b else a)"

text \<open>The conversion of an \<open>int\<close> to \<open>double\<close> (every \<open>int\<close> is a double, so it is exact).\<close>

definition d_of_int :: "cint \<Rightarrow> double" where
  "d_of_int w = (let i = sint w in dround (i < 0) (of_int \<bar>i\<bar>))"

section \<open>The profit function\<close>

definition sale_price_first_half :: double where
  "sale_price_first_half = double_lit 49000"

definition sale_price_second_half :: double where
  "sale_price_second_half = double_lit 15000"

definition cost_per_unit :: double where
  "cost_per_unit = double_lit 25000"

definition calculate_profit :: "cint \<Rightarrow> cint \<Rightarrow> double" where
  "calculate_profit orders demand =
     (let revenue = dadd (dmul sale_price_first_half (d_of_int (int_min orders demand)))
                         (dmul sale_price_second_half (d_of_int (int_max 0 (orders - demand))));
          total_cost = dmul cost_per_unit (d_of_int orders)
      in dsub revenue total_cost)"

section \<open>Vectors and the algorithms of the standard library\<close>

text \<open>
  A \<open>std::vector\<close> is a list.  Reading or writing a vector outside its bounds has no
  defined behaviour in the source; in the model it is the error \<open>OutOfBounds\<close>, and
  every function that indexes a vector returns either that error or its result.
\<close>

datatype error = OutOfBounds

definition vec_at :: "'a list \<Rightarrow> nat \<Rightarrow> error + 'a" where
  "vec_at xs i = (if i < length xs then Inr (xs ! i) else Inl OutOfBounds)"

text \<open>
  \<open>transform(src, out.begin() + k, op)\<close>: for each element of \<open>src\<close> in turn, call \<open>op\<close>
  and store its result at the next position of \<open>out\<close>.  The function object \<open>op\<close> is
  copied into the algorithm with its captures; \<open>s\<close> is the captured state it updates
  from one call to the next.
\<close>

fun transform :: "('s \<Rightarrow> 'a \<Rightarrow> error + ('b \<times> 's)) \<Rightarrow> 's \<Rightarrow> 'a list \<Rightarrow> nat \<Rightarrow> 'b list
                  \<Rightarrow> error + 'b list" where
  "transform op s [] k out = Inr out"
| "transform op s (x # xs) k out =
     (case op s x of
        Inl e \<Rightarrow> Inl e
      | Inr (y, s') \<Rightarrow>
          if k < length out then transform op s' xs (Suc k) (out[k := y]) else Inl OutOfBounds)"

text \<open>\<open>std::accumulate(row.begin(), row.end(), init)\<close>: \<open>init = init + x\<close> for each \<open>x\<close> in turn.\<close>

fun accumulate :: "double list \<Rightarrow> double \<Rightarrow> double" where
  "accumulate [] init = init"
| "accumulate (x # xs) init = accumulate xs (dadd init x)"

section \<open>The profit matrix\<close>

text \<open>The function object of \<open>create_profit_matrix\<close>: it captures \<open>i\<close> and \<open>orders\<close>.\<close>

definition profit_op :: "cint list \<Rightarrow> nat \<Rightarrow> unit \<Rightarrow> cint \<Rightarrow> error + (double \<times> unit)" where
  "profit_op orders i s demand =
     (case vec_at orders i of
        Inl e \<Rightarrow> Inl e
      | Inr order \<Rightarrow> Inr (calculate_profit order demand, s))"

function create_profit_matrix_loop ::
  "cint list \<Rightarrow> cint list \<Rightarrow> nat \<Rightarrow> double list list \<Rightarrow> error + double list list" where
  "create_profit_matrix_loop orders demands i profit_matrix =
     (if i < length orders then
        (case vec_at profit_matrix i of
           Inl e \<Rightarrow> Inl e
         | Inr row \<Rightarrow>
             (case transform (profit_op orders i) () demands 0 row of
                Inl e \<Rightarrow> Inl e
              | Inr row' \<Rightarrow>
                  create_profit_matrix_loop orders demands (Suc i) (profit_matrix[i := row'])))
      else Inr profit_matrix)"
  by pat_completeness auto
termination
  by (relation "measure (\<lambda>(orders, demands, i, profit_matrix). length orders - i)") auto

declare create_profit_matrix_loop.simps [simp del]

definition create_profit_matrix :: "cint list \<Rightarrow> cint list \<Rightarrow> error + double list list" where
  "create_profit_matrix orders demands =
     create_profit_matrix_loop orders demands 0
       (replicate (length orders) (replicate (length demands) dzero))"

section \<open>Expected values and expected profits\<close>

text \<open>
  The conversion of an \<open>int\<close> to \<open>std::size_t\<close> (64 bits), as in the index of
  \<open>probabilities[j]\<close>: the value modulo \<open>2 ^ 64\<close>, so a negative \<open>int\<close> becomes an index
  of at least \<open>2 ^ 64 - 2 ^ 31\<close>.
\<close>

definition size_t_of_int :: "cint \<Rightarrow> nat" where
  "size_t_of_int j = nat (sint j mod 2 ^ 64)"

text \<open>
  The function object of \<open>calculate_expected_values\<close>: it captures \<open>probabilities\<close> and
  a counter \<open>j\<close>, an \<open>int\<close>, which starts at 0 for each row and is incremented by each
  call.  The increment wraps around on words; the source's \<open>j++\<close> has no defined result
  at \<open>2 ^ 31 - 1\<close>, which a row of fewer than \<open>2 ^ 31\<close> cells does not reach.
\<close>

definition weight_op :: "double list \<Rightarrow> cint \<Rightarrow> double \<Rightarrow> error + (double \<times> cint)" where
  "weight_op probabilities j profit =
     (case vec_at probabilities (size_t_of_int j) of
        Inl e \<Rightarrow> Inl e
      | Inr p \<Rightarrow> Inr (dmul profit p, j + 1))"

function calculate_expected_values_loop ::
  "double list list \<Rightarrow> double list \<Rightarrow> nat \<Rightarrow> double list list \<Rightarrow> error + double list list" where
  "calculate_expected_values_loop profit_matrix probabilities i expected_values =
     (if i < length profit_matrix then
        (case vec_at expected_values i of
           Inl e \<Rightarrow> Inl e
         | Inr row \<Rightarrow>
             (case transform (weight_op probabilities) 0 (profit_matrix ! i) 0 row of
                Inl e \<Rightarrow> Inl e
              | Inr row' \<Rightarrow>
                  calculate_expected_values_loop profit_matrix probabilities (Suc i)
                    (expected_values[i := row'])))
      else Inr expected_values)"
  by pat_completeness auto
termination
  by (relation "measure (\<lambda>(profit_matrix, probabilities, i, expected_values).
                  length profit_matrix - i)") auto

declare calculate_expected_values_loop.simps [simp del]

text \<open>The size of the rows of the result is read from \<open>profit_matrix[0]\<close>, unguarded.\<close>

definition calculate_expected_values ::
  "double list list \<Rightarrow> double list \<Rightarrow> error + double list list" where
  "calculate_expected_values profit_matrix probabilities =
     (case vec_at profit_matrix 0 of
        Inl e \<Rightarrow> Inl e
      | Inr row0 \<Rightarrow>
          calculate_expected_values_loop profit_matrix probabilities 0
            (replicate (length profit_matrix) (replicate (length row0) dzero)))"

definition sum_op :: "unit \<Rightarrow> double list \<Rightarrow> error + (double \<times> unit)" where
  "sum_op s row = Inr (accumulate row dzero, s)"

definition calculate_expected_profits :: "double list list \<Rightarrow> error + double list" where
  "calculate_expected_profits expected_values =
     transform sum_op () expected_values 0 (replicate (length expected_values) dzero)"

section \<open>The choice of the optimal order\<close>

text \<open>
  The scan at the end of \<open>main\<close>, as a function of the two vectors it reads.  Each
  iteration reads \<open>orders[i]\<close> (to print it) before it compares.  Console output is not
  part of the model.
\<close>

record optimum =
  max_profit :: double
  optimal_order :: cint

function optimize_loop :: "cint list \<Rightarrow> double list \<Rightarrow> nat \<Rightarrow> optimum \<Rightarrow> error + optimum" where
  "optimize_loop orders expected_profits i best =
     (if i < length expected_profits then
        (case vec_at orders i of
           Inl e \<Rightarrow> Inl e
         | Inr order \<Rightarrow>
             optimize_loop orders expected_profits (Suc i)
               (if dgt (expected_profits ! i) (max_profit best)
                then \<lparr>max_profit = expected_profits ! i, optimal_order = order\<rparr>
                else best))
      else Inr best)"
  by pat_completeness auto
termination
  by (relation "measure (\<lambda>(orders, expected_profits, i, best). length expected_profits - i)") auto

declare optimize_loop.simps [simp del]

definition optimize :: "cint list \<Rightarrow> double list \<Rightarrow> error + optimum" where
  "optimize orders expected_profits =
     optimize_loop orders expected_profits 0 \<lparr>max_profit = lowest, optimal_order = 0\<rparr>"

section \<open>The program\<close>

definition pipeline :: "cint list \<Rightarrow> cint list \<Rightarrow> double list \<Rightarrow> error + optimum" where
  "pipeline orders demands probabilities =
     (case create_profit_matrix orders demands of
        Inl e \<Rightarrow> Inl e
      | Inr profit_matrix \<Rightarrow>
          (case calculate_expected_values profit_matrix probabilities of
             Inl e \<Rightarrow> Inl e
           | Inr expected_values \<Rightarrow>
               (case calculate_expected_profits expected_values of
                  Inl e \<Rightarrow> Inl e
                | Inr expected_profits \<Rightarrow> optimize orders expected_profits)))"

definition main_demands :: "cint list" where
  "main_demands = [100, 150, 200, 250, 300]"

definition main_probabilities :: "double list" where
  "main_probabilities =
     [double_lit (1 / 10), double_lit (15 / 100), double_lit (25 / 100), double_lit (3 / 10),
      double_lit (2 / 10)]"

definition main_orders :: "cint list" where
  "main_orders = [100, 150, 200, 250, 300]"

definition main :: "error + optimum" where
  "main = pipeline main_orders main_demands main_probabilities"

section \<open>Notions used to state the properties\<close>

text \<open>The profit of an order under a demand, computed in the integers.\<close>

definition profit_value :: "int \<Rightarrow> int \<Rightarrow> int" where
  "profit_value order demand = 49000 * min order demand + 15000 * max 0 (order - demand) - 25000 * order"

text \<open>A grid with \<open>c\<close> columns: every row has \<open>c\<close> cells.\<close>

definition is_grid :: "'a list list \<Rightarrow> nat \<Rightarrow> bool" where
  "is_grid m c = list_all (\<lambda>row. length row = c) m"

text \<open>
  The sum of the first \<open>n\<close> cells of a row, taken in ascending order of the index:
  it starts from \<open>0.0\<close> and adds cell \<open>n\<close> to the sum of the cells before it.
\<close>

fun sum_upto :: "double list \<Rightarrow> nat \<Rightarrow> double" where
  "sum_upto row 0 = dzero"
| "sum_upto row (Suc n) = dadd (sum_upto row n) (row ! n)"

text \<open>
  Index \<open>i\<close> is the first one that attains the maximum of the expected profits: no
  expected profit compares greater than the one at \<open>i\<close>, and that one compares greater
  than every expected profit before it.
\<close>

definition first_max_index :: "double list \<Rightarrow> nat \<Rightarrow> bool" where
  "first_max_index expected_profits i =
     (i < length expected_profits
      \<and> list_all (\<lambda>x. \<not> dgt x (expected_profits ! i)) expected_profits
      \<and> list_all (\<lambda>x. dgt (expected_profits ! i) x) (take i expected_profits))"

section \<open>Auxiliary facts\<close>

subsection \<open>Rounding is exact on integers below \<open>2 ^ 53\<close>\<close>

lemma rne_of_int: "rne (of_int n) = n"
  by (simp add: rne_def Let_def)

lemma ilog2_of_int: "0 < n \<Longrightarrow> ilog2 (of_int n) = bitlen n - 1"
  by (simp add: ilog2_def)

lemma bitlen_range: "0 < n \<Longrightarrow> n < 2 ^ 53 \<Longrightarrow> 1 \<le> bitlen n \<and> bitlen n \<le> 53"
  using bitlen_le_iff_power [of n 53] bitlen_eq_zero_iff [of n] bitlen_nonneg [of n]
  by auto

lemma round_mag_of_int:
  assumes "0 < n" "n < 2 ^ 53"
  shows "round_mag (of_int n) = of_int n"
proof -
  define j where "j = nat (53 - bitlen n)"
  have b: "1 \<le> bitlen n" "bitlen n \<le> 53" using bitlen_range [OF assms] by auto
  have k: "max (ilog2 (of_int n)) (- 1022) - 52 = - int j"
    using b by (simp add: ilog2_of_int assms j_def)
  have q: "pow2 (- int j) = 1 / 2 ^ j" by (simp add: pow2_def)
  have "rat_of_int n / (1 / 2 ^ j) = of_int (n * 2 ^ j)" by simp
  then have "rne (rat_of_int n / (1 / 2 ^ j)) = n * 2 ^ j"
    using rne_of_int by metis
  then show ?thesis
    unfolding round_mag_def k q Let_def by simp
qed

lemma dround_of_int:
  assumes "0 \<le> n" "n < 2 ^ 53"
  shows "dround s (of_int n) = Finite s (of_int n)"
proof (cases "n = 0")
  case True
  then show ?thesis by (simp add: dround_def)
next
  case False
  then have pos: "0 < n" using assms by simp
  have "rat_of_int n < of_int (2 ^ 53)" using assms(2) by (simp only: of_int_less_iff)
  also have "\<dots> \<le> pow2 1024" by (simp add: pow2_def)
  finally have "\<not> pow2 1024 \<le> of_int n" by simp
  then show ?thesis
    using False by (simp add: dround_def round_mag_of_int [OF pos assms(2)])
qed

lemma double_lit_of_int:
  "0 \<le> n \<Longrightarrow> n < 2 ^ 53 \<Longrightarrow> double_lit (of_int n) = Finite False (of_int n)"
  using dround_of_int [of n False] by (simp add: double_lit_def)

lemma prices:
  "sale_price_first_half = Finite False 49000"
  "sale_price_second_half = Finite False 15000"
  "cost_per_unit = Finite False 25000"
  using double_lit_of_int [of 49000] double_lit_of_int [of 15000] double_lit_of_int [of 25000]
  by (simp_all add: sale_price_first_half_def sale_price_second_half_def cost_per_unit_def)

lemma sint_bounds32: "- (2 ^ 31) \<le> sint (w :: cint)" "sint (w :: cint) < 2 ^ 31"
  using sint_ge [of w] sint_lt [of w] by simp_all

lemma d_of_int_nonneg:
  assumes "sint w = x" "0 \<le> x"
  shows "d_of_int w = Finite False (of_int x)"
proof -
  have "x < 2 ^ 53" using sint_bounds32 [of w] assms by simp
  then have "dround False (of_int x) = Finite False (of_int x)"
    using assms(2) by (rule dround_of_int [rotated])
  moreover have "\<not> x < 0" "\<bar>x\<bar> = x" using assms(2) by simp_all
  ultimately show ?thesis
    unfolding d_of_int_def Let_def assms(1) by simp
qed

lemma dmul_of_int:
  "0 \<le> a \<Longrightarrow> 0 \<le> b \<Longrightarrow> a * b < 2 ^ 53 \<Longrightarrow>
   dmul (Finite False (of_int a)) (Finite False (of_int b)) = Finite False (of_int (a * b))"
  using dround_of_int [of "a * b" False] by simp

lemma dadd_of_int:
  "0 \<le> a \<Longrightarrow> 0 \<le> b \<Longrightarrow> a + b < 2 ^ 53 \<Longrightarrow>
   dadd (Finite False (of_int a)) (Finite False (of_int b)) = Finite False (of_int (a + b))"
  using dround_of_int [of "a + b" False] by (simp add: Let_def)

lemma dsub_of_int:
  assumes "0 \<le> a" "0 \<le> b" "a < 2 ^ 53" "b < 2 ^ 53"
  shows "dsub (Finite False (of_int a)) (Finite False (of_int b))
         = Finite (a < b) (of_int \<bar>a - b\<bar>)"
proof -
  have r: "\<bar>a - b\<bar> < 2 ^ 53" using assms by simp
  have "\<bar>rat_of_int a - rat_of_int b\<bar> = of_int \<bar>a - b\<bar>" by simp
  then show ?thesis
    using dround_of_int [of "\<bar>a - b\<bar>" "a < b"] r
    by (simp add: dsub_def Let_def del: of_int_abs of_int_diff)
qed

lemma sint_int_min: "sint (int_min a b) = min (sint a) (sint b)"
  by (simp add: int_min_def word_sless_alt min_def)

lemma sint_int_max: "sint (int_max a b) = max (sint a) (sint b)"
  by (simp add: int_max_def word_sless_alt max_def)

lemma sint_sub_nonneg:
  "0 \<le> sint (a :: cint) \<Longrightarrow> 0 \<le> sint (b :: cint) \<Longrightarrow> sint (a - b) = sint a - sint b"
  using sint_bounds32 [of a] sint_bounds32 [of b]
  by (simp add: sint_word_ariths signed_take_bit_int_eq_self)

lemma price_times_bound:
  assumes "0 \<le> a" "a \<le> 49000" "0 \<le> b" "b < 2 ^ 31"
  shows "a * b < (2 ^ 53 :: int)"
proof -
  have "a * b \<le> 49000 * b" using assms by (intro mult_right_mono) auto
  also have "\<dots> < 2 ^ 53" using assms(4) by simp
  finally show ?thesis .
qed

lemma calculate_profit_exact:
  assumes "0 \<le> sint orders" "0 \<le> sint demand"
  shows "calculate_profit orders demand
         = Finite (profit_value (sint orders) (sint demand) < 0)
                  (of_int \<bar>profit_value (sint orders) (sint demand)\<bar>)"
proof -
  define x y where "x = sint orders" and "y = sint demand"
  define u v where "u = min x y" and "v = max 0 (x - y)"
  have xb: "0 \<le> x" "x < 2 ^ 31" and yb: "0 \<le> y" "y < 2 ^ 31"
    using assms sint_bounds32 [of orders] sint_bounds32 [of demand] by (simp_all add: x_def y_def)
  have ub: "0 \<le> u" "u < 2 ^ 31" and vb: "0 \<le> v" "v < 2 ^ 31"
    using xb yb by (auto simp: u_def v_def)
  have m: "d_of_int (int_min orders demand) = Finite False (of_int u)"
    using ub by (intro d_of_int_nonneg) (simp_all add: sint_int_min x_def y_def u_def)
  have M: "d_of_int (int_max 0 (orders - demand)) = Finite False (of_int v)"
    using vb assms by (intro d_of_int_nonneg) (simp_all add: sint_int_max sint_sub_nonneg x_def y_def v_def)
  have c: "d_of_int orders = Finite False (of_int x)"
    using xb by (intro d_of_int_nonneg) (simp_all add: x_def)
  have b1: "49000 * u < 2 ^ 53" using price_times_bound [of 49000 u] ub by simp
  have b2: "15000 * v < 2 ^ 53" using price_times_bound [of 15000 v] vb by simp
  have b3: "25000 * x < 2 ^ 53" using price_times_bound [of 25000 x] xb by simp
  have p1: "dmul (Finite False 49000) (Finite False (of_int u)) = Finite False (of_int (49000 * u))"
    using dmul_of_int [of 49000 u] ub b1 by simp
  have p2: "dmul (Finite False 15000) (Finite False (of_int v)) = Finite False (of_int (15000 * v))"
    using dmul_of_int [of 15000 v] vb b2 by simp
  have p3: "dmul (Finite False 25000) (Finite False (of_int x)) = Finite False (of_int (25000 * x))"
    using dmul_of_int [of 25000 x] xb b3 by simp
  have b4: "49000 * u + 15000 * v < 2 ^ 53" using ub vb by simp
  have rev: "dadd (Finite False (of_int (49000 * u))) (Finite False (of_int (15000 * v)))
             = Finite False (of_int (49000 * u + 15000 * v))"
    using ub vb b4 by (intro dadd_of_int) auto
  have fin: "dsub (Finite False (of_int (49000 * u + 15000 * v))) (Finite False (of_int (25000 * x)))
             = Finite (49000 * u + 15000 * v < 25000 * x)
                 (of_int \<bar>49000 * u + 15000 * v - 25000 * x\<bar>)"
    using ub vb xb b3 b4 by (intro dsub_of_int) auto
  have pv: "profit_value (sint orders) (sint demand) = 49000 * u + 15000 * v - 25000 * x"
    by (simp add: profit_value_def x_def y_def u_def v_def)
  show ?thesis
    unfolding calculate_profit_def Let_def prices m M c p1 p2 p3 rev fin pv
    by simp
qed

subsection \<open>Rounding to a known neighbour\<close>

text \<open>
  The exponent of \<open>r\<close> is determined by the two powers of two that enclose it, and
  the rounded significand by any integer less than one half away.
\<close>

lemma pow2_nonneg_exp: "0 \<le> k \<Longrightarrow> pow2 k = 2 ^ nat k"
  by (simp add: pow2_def)

lemma pow2_nonpos_exp: "k \<le> 0 \<Longrightarrow> pow2 k = 1 / 2 ^ nat (- k)"
  by (simp add: pow2_def)

lemma pow2_ge_one: "0 \<le> k \<Longrightarrow> 1 \<le> pow2 k"
  by (simp add: pow2_def)

lemma pow2_le_one: "k \<le> 0 \<Longrightarrow> pow2 k \<le> 1"
  by (simp add: pow2_nonpos_exp)

lemma ilog2_unique_ge:
  assumes "1 \<le> r" "pow2 e \<le> r" "r < pow2 (e + 1)"
  shows "ilog2 r = e"
proof -
  have e0: "0 \<le> e"
  proof (rule ccontr)
    assume "\<not> 0 \<le> e"
    then have "pow2 (e + 1) \<le> 1" by (intro pow2_le_one) simp
    then show False using assms(1,3) by simp
  qed
  define w where "w = nat e"
  have lo: "rat_of_int (2 ^ w) \<le> r"
    using assms(2) e0 by (simp add: pow2_nonneg_exp w_def)
  have hi: "r < rat_of_int (2 ^ Suc w)"
    using assms(3) e0 by (simp add: pow2_nonneg_exp w_def nat_add_distrib)
  have flo: "2 ^ w \<le> \<lfloor>r\<rfloor>" using lo by (simp only: le_floor_iff)
  have fhi: "\<lfloor>r\<rfloor> < 2 ^ Suc w" using hi by (simp only: floor_less_iff)
  have "bitlen \<lfloor>r\<rfloor> = e + 1"
    using bitlen_twopow_add_eq [of "\<lfloor>r\<rfloor> - 2 ^ w" w] flo fhi e0 by (simp add: w_def)
  then show ?thesis using assms(1) by (simp add: ilog2_def)
qed

lemma ilog2_unique_lt:
  assumes "0 < r" "r < 1" "pow2 e \<le> r" "r < pow2 (e + 1)"
  shows "ilog2 r = e"
proof -
  have e0: "e < 0"
  proof (rule ccontr)
    assume "\<not> e < 0"
    then have "1 \<le> pow2 e" by (intro pow2_ge_one) simp
    then show False using assms(2,3) by simp
  qed
  define m where "m = nat (- e) - 1"
  have e: "e = - int (Suc m)" using e0 by (simp add: m_def)
  have n1: "nat (- e) = Suc m" and n2: "nat (- (e + 1)) = m" by (simp_all add: e)
  have lo: "1 / 2 ^ Suc m \<le> r"
    using assms(3) e0 by (simp only: pow2_nonpos_exp n1)
  have "e + 1 \<le> 0" using e0 by simp
  then have "pow2 (e + 1) = 1 / 2 ^ m" by (simp only: pow2_nonpos_exp n2)
  then have hi: "r < 1 / 2 ^ m"
    using assms(4) by simp
  have up: "1 / r \<le> rat_of_int (2 ^ Suc m)"
    using lo assms(1) by (simp add: field_simps)
  have dn: "rat_of_int (2 ^ m) < 1 / r"
    using hi assms(1) by (simp add: field_simps)
  have cup: "\<lceil>1 / r\<rceil> \<le> 2 ^ Suc m" using up by (simp only: ceiling_le_iff)
  have cdn: "2 ^ m < \<lceil>1 / r\<rceil>" using dn by (simp only: less_ceiling_iff)
  have "bitlen (\<lceil>1 / r\<rceil> - 1) = - e"
    using bitlen_twopow_add_eq [of "\<lceil>1 / r\<rceil> - 1 - 2 ^ m" m] cup cdn by (simp add: e)
  then show ?thesis using assms(2) by (simp add: ilog2_def)
qed

lemma ilog2_unique:
  assumes "0 < r" "pow2 e \<le> r" "r < pow2 (e + 1)"
  shows "ilog2 r = e"
  using assms ilog2_unique_ge [of r e] ilog2_unique_lt [of r e] by (cases "1 \<le> r") auto

lemma rne_nearest:
  assumes "\<bar>x - of_int n\<bar> < 1 / 2"
  shows "rne x = n"
proof (cases "of_int n \<le> x")
  case True
  have "\<lfloor>x\<rfloor> = n" using True assms by (intro floor_unique) auto
  then show ?thesis using True assms by (simp add: rne_def Let_def)
next
  case False
  have f: "\<lfloor>x\<rfloor> = n - 1" using False assms by (intro floor_unique) auto
  have "1 / 2 < x - of_int (n - 1)" using False assms by auto
  then show ?thesis using f by (simp add: rne_def Let_def)
qed

lemma dround_nearest:
  assumes "0 < r" "pow2 e \<le> r" "r < pow2 (e + 1)" "- 1022 \<le> e"
    "\<bar>r / pow2 (e - 52) - of_int n\<bar> < 1 / 2"
    "of_int n * pow2 (e - 52) < pow2 1024"
  shows "dround s r = Finite s (of_int n * pow2 (e - 52))"
proof -
  have "ilog2 r = e" using assms(1-3) by (rule ilog2_unique)
  then have "round_mag r = of_int n * pow2 (e - 52)"
    using assms(4) rne_nearest [OF assms(5)] by (simp add: round_mag_def Let_def max_def)
  then show ?thesis using assms(1,6) by (simp add: dround_def)
qed

lemma dmul_nearest:
  assumes "0 < a * b" "pow2 e \<le> a * b" "a * b < pow2 (e + 1)" "- 1022 \<le> e"
    "\<bar>a * b / pow2 (e - 52) - of_int n\<bar> < 1 / 2"
    "of_int n * pow2 (e - 52) < pow2 1024"
  shows "dmul (Finite s a) (Finite t b) = Finite (s \<noteq> t) (of_int n * pow2 (e - 52))"
  using dround_nearest [OF assms] by simp

lemma dround_numeral:
  "numeral k < (2 ^ 53 :: int) \<Longrightarrow> dround s (numeral k) = Finite s (numeral k)"
  using dround_of_int [of "numeral k" s] by simp

subsection \<open>The algorithms\<close>

lemma transform_pure:
  assumes "\<And>s x. op s x = Inr (g x, s)"
  shows "transform op s xs k out =
           (if xs = [] \<or> k + length xs \<le> length out
            then Inr (take k out @ map g xs @ drop (k + length xs) out)
            else Inl OutOfBounds)"
proof (induction xs arbitrary: k out)
  case Nil
  then show ?case by simp
next
  case (Cons x xs)
  show ?case
  proof (cases "k < length out")
    case True
    have t: "take (Suc k) (out[k := g x]) = take k out @ [g x]"
      using True by (simp add: take_Suc_conv_app_nth)
    have step: "op s x = Inr (g x, s)" by (rule assms)
    show ?thesis
      using True by (auto simp: step Cons.IH t)
  next
    case False
    have step: "op s x = Inr (g x, s)" by (rule assms)
    show ?thesis using False by (simp add: step)
  qed
qed

lemma size_t_of_int_nonneg: "0 \<le> sint j \<Longrightarrow> size_t_of_int j = nat (sint j)"
proof -
  assume "0 \<le> sint j"
  moreover have "sint j < 2 ^ 64" using sint_bounds32 [of j] by simp
  ultimately show ?thesis by (simp add: size_t_of_int_def)
qed

lemma sint_counter_next:
  assumes "0 \<le> sint (j :: cint)" "sint j < 2 ^ 31 - 1"
  shows "sint (j + 1) = sint j + 1"
  using assms by (simp add: sint_word_ariths signed_take_bit_int_eq_self)

text \<open>
  The weighting of one row, started with the counter at \<open>j \<ge> 0\<close>, as long as the counter
  stays below \<open>2 ^ 31\<close>.
\<close>

lemma transform_weight_op_from:
  assumes "0 \<le> sint j" "sint j + int (length row) < 2 ^ 31"
  shows "transform (weight_op probabilities) j row k out =
     (if row = [] \<or> (nat (sint j) + length row \<le> length probabilities
                    \<and> k + length row \<le> length out)
      then Inr (take k out @ map2 dmul row (drop (nat (sint j)) probabilities)
                @ drop (k + length row) out)
      else Inl OutOfBounds)"
  using assms
proof (induction row arbitrary: j k out)
  case Nil
  then show ?case by simp
next
  case (Cons x xs)
  let ?n = "nat (sint j)"
  have idx: "size_t_of_int j = ?n"
    using Cons.prems(1) by (rule size_t_of_int_nonneg)
  have nxt: "sint (j + 1) = sint j + 1"
    using Cons.prems by (intro sint_counter_next) simp_all
  have nn: "0 \<le> sint (j + 1)" and bd: "sint (j + 1) + int (length xs) < 2 ^ 31"
    and sn: "nat (sint (j + 1)) = Suc ?n"
    using Cons.prems nxt by simp_all
  note IH = Cons.IH [OF nn bd, unfolded sn]
  show ?case
  proof (cases "?n < length probabilities \<and> k < length out")
    case True
    have t: "take (Suc k) (out[k := y]) = take k out @ [y]" for y
      using True by (simp add: take_Suc_conv_app_nth)
    have d: "drop ?n probabilities = probabilities ! ?n # drop (Suc ?n) probabilities"
      using True by (simp add: Cons_nth_drop_Suc)
    have step: "weight_op probabilities j x = Inr (dmul x (probabilities ! ?n), j + 1)"
      using True by (simp add: weight_op_def vec_at_def idx)
    show ?thesis
      using True by (auto simp: step IH t d)
  next
    case False
    have step: "?n < length probabilities \<Longrightarrow>
                weight_op probabilities j x = Inr (dmul x (probabilities ! ?n), j + 1)"
         and fail: "\<not> ?n < length probabilities \<Longrightarrow> weight_op probabilities j x = Inl OutOfBounds"
      by (simp_all add: weight_op_def vec_at_def idx)
    show ?thesis
      using False by (cases "?n < length probabilities") (auto simp: step fail)
  qed
qed

lemma transform_weight_op:
  assumes "length row < 2 ^ 31"
  shows "transform (weight_op probabilities) 0 row k out =
     (if row = [] \<or> (length row \<le> length probabilities \<and> k + length row \<le> length out)
      then Inr (take k out @ map2 dmul row probabilities @ drop (k + length row) out)
      else Inl OutOfBounds)"
proof -
  have "sint (0 :: cint) + int (length row) < 2 ^ 31"
    using assms by simp
  then show ?thesis
    using transform_weight_op_from [of 0 row probabilities k out] by simp
qed

lemma transform_length:
  "transform op s xs k out = Inr out' \<Longrightarrow> length out' = length out"
proof (induction xs arbitrary: s k out)
  case Nil
  then show ?case by simp
next
  case (Cons x xs)
  then show ?case
    by (auto split: sum.splits prod.splits if_splits)
qed

subsection \<open>The profit matrix\<close>

lemma profit_op_step:
  "i < length orders \<Longrightarrow> profit_op orders i s demand = Inr (calculate_profit (orders ! i) demand, s)"
  by (simp add: profit_op_def vec_at_def)

lemma transform_profit_op:
  assumes "i < length orders" "length row = length demands"
  shows "transform (profit_op orders i) () demands 0 row
         = Inr (map (calculate_profit (orders ! i)) demands)"
  using transform_pure [of "profit_op orders i" "calculate_profit (orders ! i)" "()" demands 0 row]
        profit_op_step [OF assms(1)] assms(2)
  by simp

lemma create_profit_matrix_loop_eq:
  assumes "i \<le> length orders" "length pm = length orders"
    "\<And>r. i \<le> r \<Longrightarrow> r < length orders \<Longrightarrow> length (pm ! r) = length demands"
  shows "create_profit_matrix_loop orders demands i pm
         = Inr (take i pm @ map (\<lambda>order. map (calculate_profit order) demands) (drop i orders))"
  using assms
proof (induction "length orders - i" arbitrary: i pm)
  case 0
  then show ?case by (simp add: create_profit_matrix_loop.simps)
next
  case (Suc n)
  then have i: "i < length orders" by simp
  let ?row = "map (calculate_profit (orders ! i)) demands"
  have tr: "transform (profit_op orders i) () demands 0 (pm ! i) = Inr ?row"
    using transform_profit_op [OF i] Suc.prems(3) [of i] i by simp
  have rows: "length ((pm[i := ?row]) ! r) = length demands"
    if "Suc i \<le> r" "r < length orders" for r
    using that Suc.prems(3) [of r] by simp
  have IH: "create_profit_matrix_loop orders demands (Suc i) (pm[i := ?row])
            = Inr (take (Suc i) (pm[i := ?row])
                   @ map (\<lambda>order. map (calculate_profit order) demands) (drop (Suc i) orders))"
    using Suc.hyps(2) i Suc.prems(2) rows by (intro Suc.hyps(1)) auto
  have tk: "take (Suc i) (pm[i := ?row]) = take i pm @ [?row]"
    using i Suc.prems(2) by (simp add: take_Suc_conv_app_nth)
  have dr: "drop i orders = orders ! i # drop (Suc i) orders"
    using i by (simp add: Cons_nth_drop_Suc)
  show ?case
    using i Suc.prems(2)
    by (subst create_profit_matrix_loop.simps) (simp add: vec_at_def tr IH tk dr)
qed

lemma create_profit_matrix_eq:
  "create_profit_matrix orders demands
   = Inr (map (\<lambda>order. map (calculate_profit order) demands) orders)"
  unfolding create_profit_matrix_def
  by (subst create_profit_matrix_loop_eq) simp_all

subsection \<open>Expected values and expected profits\<close>

lemma calculate_expected_values_loop_eq:
  assumes "i \<le> length pm" "length ev = length pm"
    "\<And>r. i \<le> r \<Longrightarrow> r < length pm \<Longrightarrow>
          length (pm ! r) < 2 ^ 31 \<and> length (pm ! r) \<le> length probabilities
          \<and> length (ev ! r) = length (pm ! r)"
  shows "calculate_expected_values_loop pm probabilities i ev
         = Inr (take i ev @ map (\<lambda>row. map2 dmul row probabilities) (drop i pm))"
  using assms
proof (induction "length pm - i" arbitrary: i ev)
  case 0
  then show ?case by (simp add: calculate_expected_values_loop.simps)
next
  case (Suc n)
  then have i: "i < length pm" by simp
  let ?row = "map2 dmul (pm ! i) probabilities"
  have tr: "transform (weight_op probabilities) 0 (pm ! i) 0 (ev ! i) = Inr ?row"
    using Suc.prems(3) [of i] i by (simp add: transform_weight_op)
  have rows: "length (pm ! r) < 2 ^ 31 \<and> length (pm ! r) \<le> length probabilities
              \<and> length ((ev[i := ?row]) ! r) = length (pm ! r)"
    if "Suc i \<le> r" "r < length pm" for r
    using that Suc.prems(3) [of r] by simp
  have IH: "calculate_expected_values_loop pm probabilities (Suc i) (ev[i := ?row])
            = Inr (take (Suc i) (ev[i := ?row])
                   @ map (\<lambda>row. map2 dmul row probabilities) (drop (Suc i) pm))"
    using Suc.hyps(2) i Suc.prems(2) rows by (intro Suc.hyps(1)) auto
  have tk: "take (Suc i) (ev[i := ?row]) = take i ev @ [?row]"
    using i Suc.prems(2) by (simp add: take_Suc_conv_app_nth)
  have dr: "drop i pm = pm ! i # drop (Suc i) pm"
    using i by (simp add: Cons_nth_drop_Suc)
  show ?case
    using i Suc.prems(2)
    by (subst calculate_expected_values_loop.simps) (simp add: vec_at_def tr IH tk dr)
qed

lemma calculate_expected_values_eq:
  assumes "pm \<noteq> []" "is_grid pm c" "c \<le> length probabilities" "c < 2 ^ 31"
  shows "calculate_expected_values pm probabilities
         = Inr (map (\<lambda>row. map2 dmul row probabilities) pm)"
proof -
  have rows: "length (pm ! r) = c" if "r < length pm" for r
    using assms(2) that by (simp add: is_grid_def list_all_length)
  have 0: "vec_at pm 0 = Inr (pm ! 0)" using assms(1) by (simp add: vec_at_def)
  show ?thesis
    unfolding calculate_expected_values_def 0
    using assms(1,3,4) rows
    by (simp add: calculate_expected_values_loop_eq)
qed

lemma calculate_expected_values_short:
  assumes "pm \<noteq> []" "length probabilities < length (pm ! 0)" "length (pm ! 0) < 2 ^ 31"
  shows "calculate_expected_values pm probabilities = Inl OutOfBounds"
proof -
  have 0: "vec_at pm 0 = Inr (pm ! 0)" using assms(1) by (simp add: vec_at_def)
  have tr: "transform (weight_op probabilities) 0 (pm ! 0) 0 row = Inl OutOfBounds" for row
    using assms(2) by (auto simp: transform_weight_op [OF assms(3)])
  show ?thesis
    unfolding calculate_expected_values_def 0
    using assms(1)
    by (subst calculate_expected_values_loop.simps) (simp add: vec_at_def tr)
qed

lemma calculate_expected_values_empty:
  "calculate_expected_values [] probabilities = Inl OutOfBounds"
  by (simp add: calculate_expected_values_def vec_at_def)

text \<open>
  On any vector of rows of fewer than \<open>2 ^ 31\<close> cells, also one whose rows differ in
  length: the accesses stay in bounds exactly when there is a row 0 and no row is
  longer than the probabilities or than row 0.
\<close>

lemma calculate_expected_values_loop_ragged:
  assumes "i \<le> length pm" "length ev = length pm"
    "\<And>r. r < length pm \<Longrightarrow> length (ev ! r) = c"
    "\<And>r. r < length pm \<Longrightarrow> length (pm ! r) < 2 ^ 31"
  shows "calculate_expected_values_loop pm probabilities i ev \<noteq> Inl OutOfBounds
         \<longleftrightarrow> (\<forall>r. i \<le> r \<and> r < length pm \<longrightarrow>
                length (pm ! r) \<le> length probabilities \<and> length (pm ! r) \<le> c)"
  using assms
proof (induction "length pm - i" arbitrary: i ev)
  case 0
  then show ?case by (simp add: calculate_expected_values_loop.simps)
next
  case (Suc n)
  then have i: "i < length pm" by simp
  have evi: "length (ev ! i) = c" using Suc.prems(3) i by simp
  have small: "length (pm ! i) < 2 ^ 31" using Suc.prems(4) i by simp
  show ?case
  proof (cases "length (pm ! i) \<le> length probabilities \<and> length (pm ! i) \<le> c")
    case False
    then have "transform (weight_op probabilities) 0 (pm ! i) 0 (ev ! i) = Inl OutOfBounds"
      using evi by (auto simp: transform_weight_op [OF small])
    then have "calculate_expected_values_loop pm probabilities i ev = Inl OutOfBounds"
      using i Suc.prems(2) by (subst calculate_expected_values_loop.simps) (simp add: vec_at_def)
    then show ?thesis using False i by auto
  next
    case True
    let ?row = "take 0 (ev ! i) @ map2 dmul (pm ! i) probabilities
                @ drop (0 + length (pm ! i)) (ev ! i)"
    have tr: "transform (weight_op probabilities) 0 (pm ! i) 0 (ev ! i) = Inr ?row"
      using True evi by (subst transform_weight_op [OF small]) simp
    have len: "length ?row = c" using transform_length [OF tr] evi by simp
    have rows: "length ((ev[i := ?row]) ! r) = c" if "r < length pm" for r
      using that Suc.prems(2,3) len by (cases "r = i") simp_all
    have IH: "calculate_expected_values_loop pm probabilities (Suc i) (ev[i := ?row]) \<noteq> Inl OutOfBounds
              \<longleftrightarrow> (\<forall>r. Suc i \<le> r \<and> r < length pm \<longrightarrow>
                     length (pm ! r) \<le> length probabilities \<and> length (pm ! r) \<le> c)"
      using Suc.hyps(2) i Suc.prems(2,4) rows by (intro Suc.hyps(1)) simp_all
    have step: "calculate_expected_values_loop pm probabilities i ev
                = calculate_expected_values_loop pm probabilities (Suc i) (ev[i := ?row])"
      using i Suc.prems(2) by (subst calculate_expected_values_loop.simps) (simp add: vec_at_def tr)
    have "(\<forall>r. i \<le> r \<and> r < length pm \<longrightarrow>
              length (pm ! r) \<le> length probabilities \<and> length (pm ! r) \<le> c)
          \<longleftrightarrow> (\<forall>r. Suc i \<le> r \<and> r < length pm \<longrightarrow>
              length (pm ! r) \<le> length probabilities \<and> length (pm ! r) \<le> c)"
      using True by (metis Suc_leI le_neq_implies_less Suc_leD)
    then show ?thesis unfolding step IH by simp
  qed
qed

lemma calculate_expected_values_in_bounds_ragged:
  assumes "list_all (\<lambda>row. length row < 2 ^ 31) pm"
  shows "calculate_expected_values pm probabilities \<noteq> Inl OutOfBounds
   \<longleftrightarrow> pm \<noteq> [] \<and> list_all (\<lambda>row. length row \<le> length probabilities
                                  \<and> length row \<le> length (pm ! 0)) pm"
proof (cases "pm = []")
  case True
  then show ?thesis by (simp add: calculate_expected_values_empty)
next
  case False
  have 0: "vec_at pm 0 = Inr (pm ! 0)" using False by (simp add: vec_at_def)
  show ?thesis
    unfolding calculate_expected_values_def 0
    using False assms
    by (simp add: calculate_expected_values_loop_ragged [where c = "length (pm ! 0)"]
          list_all_length)
qed

lemma calculate_expected_profits_eq:
  "calculate_expected_profits ev = Inr (map (\<lambda>row. accumulate row dzero) ev)"
  unfolding calculate_expected_profits_def
  by (subst transform_pure [where g = "\<lambda>row. accumulate row dzero"]) (simp_all add: sum_op_def)

lemma accumulate_foldl: "accumulate xs init = foldl dadd init xs"
  by (induction xs arbitrary: init) simp_all

lemma sum_upto_foldl: "n \<le> length row \<Longrightarrow> sum_upto row n = foldl dadd dzero (take n row)"
  by (induction n) (simp_all add: take_Suc_conv_app_nth)

lemma accumulate_sum_upto: "accumulate row dzero = sum_upto row (length row)"
  by (simp add: accumulate_foldl sum_upto_foldl)

subsection \<open>The scan for the optimal order\<close>

lemma optimize_loop_keep:
  assumes "length eps \<le> length orders"
    "\<And>j. i \<le> j \<Longrightarrow> j < length eps \<Longrightarrow> \<not> dgt (eps ! j) (max_profit best)"
  shows "optimize_loop orders eps i best = Inr best"
  using assms
proof (induction "length eps - i" arbitrary: i)
  case 0
  then show ?case by (simp add: optimize_loop.simps)
next
  case (Suc n)
  then have i: "i < length eps" by simp
  have IH: "optimize_loop orders eps (Suc i) best = Inr best"
    using Suc.hyps(2) Suc.prems by (intro Suc.hyps(1)) auto
  show ?case
    using i Suc.prems(1) Suc.prems(2) [of i]
    by (subst optimize_loop.simps) (simp add: vec_at_def IH)
qed

lemma optimize_loop_reach:
  assumes "length eps \<le> length orders" "first_max_index eps m" "i \<le> m"
    "dgt (eps ! m) (max_profit best)"
  shows "optimize_loop orders eps i best
         = Inr \<lparr>max_profit = eps ! m, optimal_order = orders ! m\<rparr>"
  using assms(3,4)
proof (induction "m - i" arbitrary: i best)
  case 0
  then have im: "i = m" by simp
  have m: "m < length eps" using assms(2) by (simp add: first_max_index_def)
  have keep: "optimize_loop orders eps (Suc m) \<lparr>max_profit = eps ! m, optimal_order = orders ! m\<rparr>
              = Inr \<lparr>max_profit = eps ! m, optimal_order = orders ! m\<rparr>"
    using assms(1,2) by (intro optimize_loop_keep) (auto simp: first_max_index_def list_all_length)
  show ?case
    unfolding im using m assms(1) "0.prems"(2)
    by (subst optimize_loop.simps) (simp add: vec_at_def keep)
next
  case (Suc n)
  then have i: "i < m" by simp
  have m: "m < length eps" using assms(2) by (simp add: first_max_index_def)
  have below: "dgt (eps ! m) (eps ! i)"
    using assms(2) i by (simp add: first_max_index_def list_all_length)
  let ?best = "if dgt (eps ! i) (max_profit best)
               then \<lparr>max_profit = eps ! i, optimal_order = orders ! i\<rparr> else best"
  have IH: "optimize_loop orders eps (Suc i) ?best
            = Inr \<lparr>max_profit = eps ! m, optimal_order = orders ! m\<rparr>"
    using Suc.hyps(2) i below Suc.prems(2) by (intro Suc.hyps(1)) auto
  show ?case
    using i m assms(1)
    by (subst optimize_loop.simps) (simp add: vec_at_def IH)
qed

lemma optimize_loop_short:
  assumes "i \<le> length orders" "length orders < length eps"
  shows "optimize_loop orders eps i best = Inl OutOfBounds"
  using assms
proof (induction "length orders - i" arbitrary: i best)
  case 0
  then show ?case by (subst optimize_loop.simps) (simp add: vec_at_def)
next
  case (Suc n)
  then have i: "i < length orders" by simp
  show ?case
    using i Suc.prems(2) Suc.hyps(2)
    by (subst optimize_loop.simps) (simp add: vec_at_def Suc.hyps(1))
qed

lemma optimize_loop_take:
  assumes "length eps \<le> length orders"
  shows "optimize_loop orders eps i best = optimize_loop (take (length eps) orders) eps i best"
proof (induction "length eps - i" arbitrary: i best)
  case 0
  then show ?case by (simp add: optimize_loop.simps)
next
  case (Suc n)
  then have i: "i < length eps" by simp
  show ?case
    using i assms Suc.hyps(2)
    by (subst (1 2) optimize_loop.simps) (simp add: vec_at_def Suc.hyps(1))
qed

lemma optimize_loop_total:
  assumes "length eps \<le> length orders"
  shows "\<exists>best'. optimize_loop orders eps i best = Inr best'"
proof (induction "length eps - i" arbitrary: i best)
  case 0
  then show ?case by (simp add: optimize_loop.simps)
next
  case (Suc n)
  then have i: "i < length eps" by simp
  show ?case
    using i assms Suc.hyps(2)
    by (subst optimize_loop.simps) (simp add: vec_at_def Suc.hyps(1))
qed

lemma valof_signed: "valof (Finite (v < 0) (of_int \<bar>v\<bar>)) = of_int v"
  by simp

lemma zip_take_right: "zip xs (take (length xs) ys) = zip xs ys"
proof (induction xs arbitrary: ys)
  case Nil
  then show ?case by simp
next
  case (Cons x xs)
  then show ?case by (cases ys) simp_all
qed

text \<open>
  On a grid with at least one row, fewer than \<open>2 ^ 31\<close> columns and enough
  probabilities, the weighting is cell by cell.
\<close>

lemma calculate_expected_values_cells:
  assumes "profit_matrix \<noteq> []" "is_grid profit_matrix c" "c \<le> length probabilities"
    "c < 2 ^ 31"
  shows "\<exists>expected_values.
     calculate_expected_values profit_matrix probabilities = Inr expected_values
     \<and> length expected_values = length profit_matrix
     \<and> (\<forall>i < length profit_matrix.
           length (expected_values ! i) = c
           \<and> (\<forall>j < c. expected_values ! i ! j = dmul (profit_matrix ! i ! j) (probabilities ! j)))"
proof -
  have rows: "length (profit_matrix ! i) = c" if "i < length profit_matrix" for i
    using assms(2) that by (simp add: is_grid_def list_all_length)
  show ?thesis
    unfolding calculate_expected_values_eq [OF assms]
    using assms(3) rows by simp
qed

subsection \<open>The scan started from \<open>lowest\<close>\<close>

lemma optimize_first_max:
  assumes "length expected_profits \<le> length orders" "first_max_index expected_profits i"
    "dgt (expected_profits ! i) lowest"
  shows "optimize orders expected_profits
         = Inr \<lparr>max_profit = expected_profits ! i, optimal_order = orders ! i\<rparr>"
  unfolding optimize_def using assms by (intro optimize_loop_reach) simp_all

lemma optimize_nothing_above_lowest:
  assumes "length expected_profits \<le> length orders"
    "list_all (\<lambda>x. \<not> dgt x lowest) expected_profits"
  shows "optimize orders expected_profits = Inr \<lparr>max_profit = lowest, optimal_order = 0\<rparr>"
  unfolding optimize_def using assms by (intro optimize_loop_keep) (simp_all add: list_all_length)

lemma double_lit_numeral:
  "numeral k < (2 ^ 53 :: int) \<Longrightarrow> double_lit (numeral k) = Finite False (numeral k)"
  using double_lit_of_int [of "numeral k"] by simp

lemma dgt_lowest_nonneg:
  assumes "0 \<le> m"
  shows "dgt (Finite False m) lowest"
proof -
  have "(0 :: rat) < (2 ^ 53 - 1) * 2 ^ 971" by simp
  then have "- ((2 ^ 53 - 1) * 2 ^ 971) < m" using assms by linarith
  then show ?thesis by (simp add: lowest_def)
qed

subsection \<open>The run of \<open>main\<close>, stage by stage\<close>

text \<open>
  The five probabilities as doubles, and the 25 products of a profit and a probability:
  each is rounded to the neighbour named by its exponent and its significand.
\<close>

lemma main_probabilities_eq:
  "main_probabilities = map (Finite False)
     [3602879701896397 / 36028797018963968,
      5404319552844595 / 36028797018963968,
      1 / 4,
      5404319552844595 / 18014398509481984,
      3602879701896397 / 18014398509481984]"
proof -
  have p0: "double_lit (1 / 10) = Finite False (3602879701896397 / 36028797018963968)"
    using dround_nearest [of "1 / 10" "-4" 7205759403792794 False] by (simp add: pow2_def double_lit_def)
  have p1: "double_lit (15 / 100) = Finite False (5404319552844595 / 36028797018963968)"
    using dround_nearest [of "3 / 20" "-3" 5404319552844595 False] by (simp add: pow2_def double_lit_def)
  have p2: "double_lit (25 / 100) = Finite False (1 / 4)"
    using dround_nearest [of "1 / 4" "-2" 4503599627370496 False] by (simp add: pow2_def double_lit_def)
  have p3: "double_lit (3 / 10) = Finite False (5404319552844595 / 18014398509481984)"
    using dround_nearest [of "3 / 10" "-2" 5404319552844595 False] by (simp add: pow2_def double_lit_def)
  have p4: "double_lit (2 / 10) = Finite False (3602879701896397 / 18014398509481984)"
    using dround_nearest [of "1 / 5" "-3" 7205759403792794 False] by (simp add: pow2_def double_lit_def)
  show ?thesis unfolding main_probabilities_def p0 p1 p2 p3 p4 by simp
qed

lemma main_products:
  shows "dmul (Finite False 2400000) (Finite False (3602879701896397 / 36028797018963968)) = Finite False 240000"
    and "dmul (Finite False 2400000) (Finite False (5404319552844595 / 36028797018963968)) = Finite False 360000"
    and "dmul (Finite False 2400000) (Finite False (1 / 4)) = Finite False 600000"
    and "dmul (Finite False 2400000) (Finite False (5404319552844595 / 18014398509481984)) = Finite False 720000"
    and "dmul (Finite False 2400000) (Finite False (3602879701896397 / 18014398509481984)) = Finite False 480000"
    and "dmul (Finite False 1900000) (Finite False (3602879701896397 / 36028797018963968)) = Finite False 190000"
    and "dmul (Finite False 3600000) (Finite False (5404319552844595 / 36028797018963968)) = Finite False 540000"
    and "dmul (Finite False 3600000) (Finite False (1 / 4)) = Finite False 900000"
    and "dmul (Finite False 3600000) (Finite False (5404319552844595 / 18014398509481984)) = Finite False 1080000"
    and "dmul (Finite False 3600000) (Finite False (3602879701896397 / 18014398509481984)) = Finite False 720000"
    and "dmul (Finite False 1400000) (Finite False (3602879701896397 / 36028797018963968)) = Finite False 140000"
    and "dmul (Finite False 3100000) (Finite False (5404319552844595 / 36028797018963968)) = Finite False 465000"
    and "dmul (Finite False 4800000) (Finite False (1 / 4)) = Finite False 1200000"
    and "dmul (Finite False 4800000) (Finite False (5404319552844595 / 18014398509481984)) = Finite False 1440000"
    and "dmul (Finite False 4800000) (Finite False (3602879701896397 / 18014398509481984)) = Finite False 960000"
    and "dmul (Finite False 900000) (Finite False (3602879701896397 / 36028797018963968)) = Finite False 90000"
    and "dmul (Finite False 2600000) (Finite False (5404319552844595 / 36028797018963968)) = Finite False 390000"
    and "dmul (Finite False 4300000) (Finite False (1 / 4)) = Finite False 1075000"
    and "dmul (Finite False 6000000) (Finite False (5404319552844595 / 18014398509481984)) = Finite False 1800000"
    and "dmul (Finite False 6000000) (Finite False (3602879701896397 / 18014398509481984)) = Finite False 1200000"
    and "dmul (Finite False 400000) (Finite False (3602879701896397 / 36028797018963968)) = Finite False 40000"
    and "dmul (Finite False 2100000) (Finite False (5404319552844595 / 36028797018963968)) = Finite False 315000"
    and "dmul (Finite False 3800000) (Finite False (1 / 4)) = Finite False 950000"
    and "dmul (Finite False 5500000) (Finite False (5404319552844595 / 18014398509481984)) = Finite False 1650000"
    and "dmul (Finite False 7200000) (Finite False (3602879701896397 / 18014398509481984)) = Finite False 1440000"
  subgoal
    using dmul_nearest [of 2400000 "3602879701896397 / 36028797018963968" 17 8246337208320000 False False] by (simp add: pow2_def)
  subgoal
    using dmul_nearest [of 2400000 "5404319552844595 / 36028797018963968" 18 6184752906240000 False False] by (simp add: pow2_def)
  subgoal
    using dmul_nearest [of 2400000 "1 / 4" 19 5153960755200000 False False] by (simp add: pow2_def)
  subgoal
    using dmul_nearest [of 2400000 "5404319552844595 / 18014398509481984" 19 6184752906240000 False False] by (simp add: pow2_def)
  subgoal
    using dmul_nearest [of 2400000 "3602879701896397 / 18014398509481984" 18 8246337208320000 False False] by (simp add: pow2_def)
  subgoal
    using dmul_nearest [of 1900000 "3602879701896397 / 36028797018963968" 17 6528350289920000 False False] by (simp add: pow2_def)
  subgoal
    using dmul_nearest [of 3600000 "5404319552844595 / 36028797018963968" 19 4638564679680000 False False] by (simp add: pow2_def)
  subgoal
    using dmul_nearest [of 3600000 "1 / 4" 19 7730941132800000 False False] by (simp add: pow2_def)
  subgoal
    using dmul_nearest [of 3600000 "5404319552844595 / 18014398509481984" 20 4638564679680000 False False] by (simp add: pow2_def)
  subgoal
    using dmul_nearest [of 3600000 "3602879701896397 / 18014398509481984" 19 6184752906240000 False False] by (simp add: pow2_def)
  subgoal
    using dmul_nearest [of 1400000 "3602879701896397 / 36028797018963968" 17 4810363371520000 False False] by (simp add: pow2_def)
  subgoal
    using dmul_nearest [of 3100000 "5404319552844595 / 36028797018963968" 18 7988639170560000 False False] by (simp add: pow2_def)
  subgoal
    using dmul_nearest [of 4800000 "1 / 4" 20 5153960755200000 False False] by (simp add: pow2_def)
  subgoal
    using dmul_nearest [of 4800000 "5404319552844595 / 18014398509481984" 20 6184752906240000 False False] by (simp add: pow2_def)
  subgoal
    using dmul_nearest [of 4800000 "3602879701896397 / 18014398509481984" 19 8246337208320000 False False] by (simp add: pow2_def)
  subgoal
    using dmul_nearest [of 900000 "3602879701896397 / 36028797018963968" 16 6184752906240000 False False] by (simp add: pow2_def)
  subgoal
    using dmul_nearest [of 2600000 "5404319552844595 / 36028797018963968" 18 6700148981760000 False False] by (simp add: pow2_def)
  subgoal
    using dmul_nearest [of 4300000 "1 / 4" 20 4617089843200000 False False] by (simp add: pow2_def)
  subgoal
    using dmul_nearest [of 6000000 "5404319552844595 / 18014398509481984" 20 7730941132800000 False False] by (simp add: pow2_def)
  subgoal
    using dmul_nearest [of 6000000 "3602879701896397 / 18014398509481984" 20 5153960755200000 False False] by (simp add: pow2_def)
  subgoal
    using dmul_nearest [of 400000 "3602879701896397 / 36028797018963968" 15 5497558138880000 False False] by (simp add: pow2_def)
  subgoal
    using dmul_nearest [of 2100000 "5404319552844595 / 36028797018963968" 18 5411658792960000 False False] by (simp add: pow2_def)
  subgoal
    using dmul_nearest [of 3800000 "1 / 4" 19 8160437862400000 False False] by (simp add: pow2_def)
  subgoal
    using dmul_nearest [of 5500000 "5404319552844595 / 18014398509481984" 20 7086696038400000 False False] by (simp add: pow2_def)
  subgoal
    using dmul_nearest [of 7200000 "3602879701896397 / 18014398509481984" 20 6184752906240000 False False] by (simp add: pow2_def)
  done

lemma main_profit_matrix:
  "create_profit_matrix main_orders main_demands
   = Inr (map (map (Finite False))
       [[2400000, 2400000, 2400000, 2400000, 2400000],
        [1900000, 3600000, 3600000, 3600000, 3600000],
        [1400000, 3100000, 4800000, 4800000, 4800000],
        [900000, 2600000, 4300000, 6000000, 6000000],
        [400000, 2100000, 3800000, 5500000, 7200000]])"
  unfolding create_profit_matrix_eq main_orders_def main_demands_def
  by (simp add: calculate_profit_exact profit_value_def)

lemma main_expected_values:
  "calculate_expected_values
     (map (map (Finite False))
       [[2400000, 2400000, 2400000, 2400000, 2400000],
        [1900000, 3600000, 3600000, 3600000, 3600000],
        [1400000, 3100000, 4800000, 4800000, 4800000],
        [900000, 2600000, 4300000, 6000000, 6000000],
        [400000, 2100000, 3800000, 5500000, 7200000]])
     main_probabilities
   = Inr (map (map (Finite False))
       [[240000, 360000, 600000, 720000, 480000],
        [190000, 540000, 900000, 1080000, 720000],
        [140000, 465000, 1200000, 1440000, 960000],
        [90000, 390000, 1075000, 1800000, 1200000],
        [40000, 315000, 950000, 1650000, 1440000]])"
  by (subst calculate_expected_values_eq [where c = 5])
     (simp_all add: is_grid_def main_probabilities_eq main_products del: dmul.simps)

lemma main_expected_profits:
  "calculate_expected_profits
     (map (map (Finite False))
       [[240000, 360000, 600000, 720000, 480000],
        [190000, 540000, 900000, 1080000, 720000],
        [140000, 465000, 1200000, 1440000, 960000],
        [90000, 390000, 1075000, 1800000, 1200000],
        [40000, 315000, 950000, 1650000, 1440000]])
   = Inr (map (Finite False) [2400000, 3430000, 4205000, 4555000, 4395000])"
  by (simp add: calculate_expected_profits_eq dzero_def dround_numeral)

lemma main_optimum:
  "optimize main_orders (map (Finite False) [2400000, 3430000, 4205000, 4555000, 4395000])
   = Inr \<lparr>max_profit = Finite False 4555000, optimal_order = 250\<rparr>"
proof -
  let ?eps = "map (Finite False) [2400000, 3430000, 4205000, 4555000, 4395000]"
  have f: "first_max_index ?eps 3" by (simp add: first_max_index_def)
  have g: "dgt (?eps ! 3) lowest" by (simp add: dgt_lowest_nonneg)
  have "optimize main_orders ?eps = Inr \<lparr>max_profit = ?eps ! 3, optimal_order = main_orders ! 3\<rparr>"
    using f g by (intro optimize_first_max) (simp_all add: main_orders_def)
  then show ?thesis by (simp add: main_orders_def)
qed

section \<open>Properties of the profit function\<close>

text \<open>
  Claim C1.  For every order \<open>\<ge> 0\<close> and demand \<open>\<ge> 0\<close>, \<open>calculate_profit\<close> returns
  \<open>49000 * min(order, demand) + 15000 * max(0, order - demand) - 25000 * order\<close>:
  the result is a finite double whose value is exactly that number, no operation of
  the computation rounds or overflows.
\<close>

theorem calculate_profit_formula:
  assumes "word_sle 0 orders" "word_sle 0 demand"
  shows "is_finite (calculate_profit orders demand)
         \<and> valof (calculate_profit orders demand)
           = 49000 * of_int (min (sint orders) (sint demand))
             + 15000 * of_int (max 0 (sint orders - sint demand))
             - 25000 * of_int (sint orders)"
proof -
  have nn: "0 \<le> sint orders" "0 \<le> sint demand"
    using assms by (simp_all add: word_sle_eq)
  have "rat_of_int (profit_value (sint orders) (sint demand))
        = 49000 * of_int (min (sint orders) (sint demand))
             + 15000 * of_int (max 0 (sint orders - sint demand))
             - 25000 * of_int (sint orders)"
    unfolding profit_value_def by (simp only: of_int_diff of_int_add of_int_mult of_int_numeral)
  then show ?thesis
    unfolding calculate_profit_exact [OF nn] valof_signed by simp
qed

text \<open>The order 300 under the demand 100: \<open>4900000 + 3000000 - 7500000\<close>.\<close>

theorem calculate_profit_formula_witness:
  "word_sle 0 (300 :: cint) \<and> word_sle 0 (100 :: cint)
   \<and> is_finite (calculate_profit 300 100) \<and> valof (calculate_profit 300 100) = 400000"
  using calculate_profit_formula [of 300 100] by (simp add: word_sle_eq)

text \<open>
  Claim C9.  For every demand \<open>\<ge> 0\<close>, the profit of the order 0 is \<open>0.0\<close>.
\<close>

theorem calculate_profit_zero_order:
  assumes "word_sle 0 demand"
  shows "calculate_profit 0 demand = dzero"
proof -
  have nn: "0 \<le> sint (0 :: cint)" "0 \<le> sint demand"
    using assms by (simp_all add: word_sle_eq)
  show ?thesis
    unfolding calculate_profit_exact [OF nn]
    using nn(2) by (simp add: profit_value_def dzero_def)
qed

theorem calculate_profit_zero_order_witness:
  "word_sle 0 (100 :: cint) \<and> calculate_profit 0 100 = dzero"
  using calculate_profit_zero_order [of 100] by (simp add: word_sle_eq)

section \<open>Properties of the profit matrix\<close>

text \<open>
  Claim C2.  For all \<open>orders\<close> and \<open>demands\<close>, \<open>create_profit_matrix\<close> returns, without
  any access out of bounds, a matrix of \<open>length orders\<close> rows and \<open>length demands\<close>
  columns whose cell \<open>i, j\<close> is \<open>calculate_profit (orders ! i) (demands ! j)\<close>.
\<close>

theorem create_profit_matrix_cells:
  "\<exists>profit_matrix.
     create_profit_matrix orders demands = Inr profit_matrix
     \<and> length profit_matrix = length orders
     \<and> (\<forall>i < length orders.
           length (profit_matrix ! i) = length demands
           \<and> (\<forall>j < length demands.
                 profit_matrix ! i ! j = calculate_profit (orders ! i) (demands ! j)))"
proof -
  let ?built = "map (\<lambda>order. map (calculate_profit order) demands) orders"
  have "create_profit_matrix orders demands = Inr ?built"
    by (rule create_profit_matrix_eq)
  moreover have "length ?built = length orders"
    by simp
  moreover have "length (?built ! i) = length demands
                 \<and> (\<forall>j < length demands.
                       ?built ! i ! j = calculate_profit (orders ! i) (demands ! j))"
    if "i < length orders" for i
    using that by simp
  ultimately show ?thesis by blast
qed

theorem create_profit_matrix_cells_witness:
  "\<exists>profit_matrix.
     create_profit_matrix [100, 300] [100, 150, 200] = Inr profit_matrix
     \<and> length profit_matrix = 2
     \<and> length (profit_matrix ! 1) = 3
     \<and> profit_matrix ! 1 ! 0 = calculate_profit 300 100"
  using create_profit_matrix_cells [of "[100, 300]" "[100, 150, 200]"]
  by fastforce

section \<open>Properties of the expected values\<close>

text \<open>
  Claim C3 is that weighting a rectangular matrix by as many probabilities as it has
  columns gives a grid of the same shape, cell \<open>i, j\<close> being the product of the
  matrix cell and \<open>probabilities ! j\<close>; \<open>calculate_expected_values_cells\<close> shows it for
  every grid of at least one row and fewer than \<open>2 ^ 31\<close> columns.  On the grid without rows, which is what
  \<open>create_profit_matrix\<close> returns for no orders and which is rectangular for every
  number of columns, \<open>calculate_expected_values\<close> reads row 0 out of bounds instead
  of returning the grid without rows.
\<close>

theorem calculate_expected_values_empty_grid:
  "create_profit_matrix [] demands = Inr []
   \<and> is_grid ([] :: double list list) (length probabilities)
   \<and> calculate_expected_values [] probabilities = Inl OutOfBounds"
proof (intro conjI)
  show "create_profit_matrix [] demands = Inr []"
    by (simp add: create_profit_matrix_eq)
  show "is_grid ([] :: double list list) (length probabilities)"
    by (simp add: is_grid_def)
  show "calculate_expected_values [] probabilities = Inl OutOfBounds"
    by (simp add: calculate_expected_values_def vec_at_def)
qed



text \<open>
  Against claim C7: a probability sequence longer than the row is accepted, there is
  no error for a length that differs.
\<close>

theorem calculate_expected_values_no_mismatch_counterexample:
  "is_grid [[Finite False 2400000]] 1
   \<and> length [Finite False (1 / 2), Finite False (1 / 2)] \<noteq> 1
   \<and> calculate_expected_values [[Finite False 2400000]] [Finite False (1 / 2), Finite False (1 / 2)]
     = Inr [[Finite False 1200000]]"
proof -
  have g: "is_grid [[Finite False 2400000]] 1" by (simp add: is_grid_def)
  have "dmul (Finite False 2400000) (Finite False (1 / 2)) = Finite False 1200000"
    by (simp add: dround_numeral)
  then show ?thesis
    using g by (simp add: calculate_expected_values_eq [OF _ g])
qed

text \<open>
  Claim C7, amended.  On a rectangular matrix of at least one row and \<open>c\<close> columns,
  \<open>c < 2 ^ 31\<close> (so that the \<open>int\<close> counter of the columns does not overflow), with a
  probability sequence whose length is not \<open>c\<close>: when it is longer, the
  weighting returns the grid weighted by the first \<open>c\<close> probabilities and ignores the
  others; when it is shorter, it reads the probabilities out of bounds.  No other
  failure exists.
\<close>

theorem calculate_expected_values_length_differs:
  assumes "profit_matrix \<noteq> []" "is_grid profit_matrix c" "length probabilities \<noteq> c"
    "c < 2 ^ 31"
  shows "if c < length probabilities
         then calculate_expected_values profit_matrix probabilities
              = Inr (map (\<lambda>row. map2 dmul row (take c probabilities)) profit_matrix)
         else calculate_expected_values profit_matrix probabilities = Inl OutOfBounds"
proof (cases "c < length probabilities")
  case True
  have rows: "length row = c" if "row \<in> set profit_matrix" for row
    using assms(2) that by (simp add: is_grid_def list_all_iff)
  have "map2 dmul row probabilities = map2 dmul row (take c probabilities)"
    if "row \<in> set profit_matrix" for row
    using rows [OF that] zip_take_right [of row probabilities] by simp
  then show ?thesis
    using True by (simp add: calculate_expected_values_eq [OF assms(1,2) _ assms(4)])
next
  case False
  have c: "length (profit_matrix ! 0) = c"
    using assms(1,2) by (simp add: is_grid_def list_all_length)
  have "calculate_expected_values profit_matrix probabilities = Inl OutOfBounds"
    using assms(1,3,4) c False by (intro calculate_expected_values_short) simp_all
  then show ?thesis using False by simp
qed

theorem calculate_expected_values_length_differs_witness:
  "is_grid [[Finite False 2400000]] 1 \<and> (1 :: nat) < 2 ^ 31
   \<and> length [Finite False (1 / 2), Finite False (1 / 2)] \<noteq> 1
   \<and> calculate_expected_values [[Finite False 2400000]] [Finite False (1 / 2), Finite False (1 / 2)]
     = Inr [[Finite False 1200000]]
   \<and> is_grid [[Finite False 2, Finite False 4]] 2 \<and> (2 :: nat) < 2 ^ 31
   \<and> length [Finite False 1] \<noteq> 2
   \<and> calculate_expected_values [[Finite False 2, Finite False 4]] [Finite False 1] = Inl OutOfBounds"
proof -
  have g1: "is_grid [[Finite False 2400000]] 1" and g2: "is_grid [[Finite False 2, Finite False 4]] 2"
    by (simp_all add: is_grid_def)
  have m: "dmul (Finite False 2400000) (Finite False (1 / 2)) = Finite False 1200000"
    by (simp add: dround_numeral)
  show ?thesis
    using calculate_expected_values_length_differs
            [OF _ g1, of "[Finite False (1 / 2), Finite False (1 / 2)]"]
          calculate_expected_values_length_differs [OF _ g2, of "[Finite False 1]"]
          g1 g2
    by (simp add: m dround_numeral)
qed

section \<open>Properties of the expected profits\<close>

text \<open>
  Claim C4.  For every grid, \<open>calculate_expected_profits\<close> returns one value per row,
  the sum of the cells of the row added one by one in ascending order of the index,
  starting from \<open>0.0\<close>; a row without cells gives \<open>0.0\<close>.
\<close>

theorem calculate_expected_profits_sums:
  "\<exists>expected_profits.
     calculate_expected_profits expected_values = Inr expected_profits
     \<and> length expected_profits = length expected_values
     \<and> (\<forall>i < length expected_values.
           expected_profits ! i = sum_upto (expected_values ! i) (length (expected_values ! i))
           \<and> (expected_values ! i = [] \<longrightarrow> expected_profits ! i = dzero))"
proof -
  let ?sums = "map (\<lambda>row. accumulate row dzero) expected_values"
  have "calculate_expected_profits expected_values = Inr ?sums"
    by (rule calculate_expected_profits_eq)
  moreover have "length ?sums = length expected_values"
    by simp
  moreover have "?sums ! i = sum_upto (expected_values ! i) (length (expected_values ! i))
                 \<and> (expected_values ! i = [] \<longrightarrow> ?sums ! i = dzero)"
    if "i < length expected_values" for i
    using that by (auto simp: accumulate_sum_upto)
  ultimately show ?thesis by blast
qed

theorem calculate_expected_profits_sums_witness:
  "\<exists>expected_profits.
     calculate_expected_profits [[Finite False 240000, Finite False 360000, Finite False 600000], []]
     = Inr expected_profits
     \<and> length expected_profits = 2
     \<and> expected_profits ! 0 = Finite False 1200000
     \<and> expected_profits ! 1 = dzero"
  using calculate_expected_profits_sums
          [of "[[Finite False 240000, Finite False 360000, Finite False 600000], []]"]
  by (fastforce simp: numeral_3_eq_3 dzero_def dround_numeral)

section \<open>Properties of the choice of the optimal order\<close>

text \<open>
  Against claim C5: on the single expected profit \<open>lowest\<close> nothing compares greater
  than the initial \<open>max_profit\<close>, and the order returned is the initial 0, not the
  order at index 0.
\<close>

theorem optimize_lowest_counterexample:
  "first_max_index [lowest] 0
   \<and> optimize [100] [lowest] = Inr \<lparr>max_profit = lowest, optimal_order = 0\<rparr>
   \<and> optimize [100] [lowest] \<noteq> Inr \<lparr>max_profit = [lowest] ! 0, optimal_order = [100] ! 0\<rparr>"
proof -
  have n: "\<not> dgt lowest lowest" by (simp add: lowest_def)
  have "optimize [100] [lowest] = Inr \<lparr>max_profit = lowest, optimal_order = 0\<rparr>"
    using n by (intro optimize_nothing_above_lowest) simp_all
  then show ?thesis using n by (simp add: first_max_index_def)
qed

text \<open>
  Claim C5, amended.  For orders and expected profits of equal length, if index \<open>i\<close>
  is the first that attains the maximum expected profit and that maximum is greater
  than \<open>lowest\<close>, the scan returns the order at \<open>i\<close> with that expected profit: a later
  expected profit equal to the best one does not replace it.  In particular, for the
  expected profits 10, 20, 20, 5 and the orders 100, 150, 200, 250 it returns the order
  150 with the expected profit 20.
\<close>

theorem optimize_first_maximum:
  "(length orders = length expected_profits \<and> first_max_index expected_profits i
      \<and> dgt (expected_profits ! i) lowest
    \<longrightarrow> optimize orders expected_profits
        = Inr \<lparr>max_profit = expected_profits ! i, optimal_order = orders ! i\<rparr>)
   \<and> optimize [100, 150, 200, 250] [double_lit 10, double_lit 20, double_lit 20, double_lit 5]
     = Inr \<lparr>max_profit = double_lit 20, optimal_order = 150\<rparr>"
proof -
  let ?eps = "[Finite False 10, Finite False 20, Finite False 20, Finite False 5]"
  have f: "first_max_index ?eps 1" by (simp add: first_max_index_def)
  have g: "dgt (?eps ! 1) lowest" by (simp add: dgt_lowest_nonneg)
  have "optimize [100, 150, 200, 250] ?eps
        = Inr \<lparr>max_profit = ?eps ! 1, optimal_order = [100, 150, 200, 250] ! 1\<rparr>"
    using f g by (intro optimize_first_max) simp_all
  then show ?thesis
    by (simp add: optimize_first_max double_lit_numeral)
qed

theorem optimize_first_maximum_witness:
  "length [100, 150, 200 :: cint] = length [Finite False 20, Finite False 30, Finite False 30]
   \<and> first_max_index [Finite False 20, Finite False 30, Finite False 30] 1
   \<and> dgt ([Finite False 20, Finite False 30, Finite False 30] ! 1) lowest
   \<and> optimize [100, 150, 200] [Finite False 20, Finite False 30, Finite False 30]
     = Inr \<lparr>max_profit = Finite False 30, optimal_order = 150\<rparr>"
  using optimize_first_maximum
          [of "[100, 150, 200]" "[Finite False 20, Finite False 30, Finite False 30]" 1]
  by (simp add: first_max_index_def dgt_lowest_nonneg)

text \<open>
  Against claim C8: two empty vectors give a result, and so do orders longer than the
  expected profits.
\<close>

theorem optimize_no_validation_counterexample:
  "optimize [] [] = Inr \<lparr>max_profit = lowest, optimal_order = 0\<rparr>
   \<and> optimize [100, 150] [Finite False 1] = Inr \<lparr>max_profit = Finite False 1, optimal_order = 100\<rparr>"
proof -
  have 1: "optimize [] [] = Inr \<lparr>max_profit = lowest, optimal_order = 0\<rparr>"
    by (intro optimize_nothing_above_lowest) simp_all
  have "optimize [100, 150] [Finite False 1]
        = Inr \<lparr>max_profit = [Finite False 1] ! 0, optimal_order = [100, 150] ! 0\<rparr>"
    by (intro optimize_first_max) (simp_all add: first_max_index_def dgt_lowest_nonneg)
  then show ?thesis using 1 by simp
qed

text \<open>
  Claim C8, amended.  The scan checks nothing: without expected profits it returns
  the order 0 and the profit \<open>lowest\<close>, whatever the orders; with fewer orders than
  expected profits it reads the orders out of bounds; with more orders than expected
  profits it returns what it returns on the orders cut to the length of the expected
  profits.
\<close>

theorem optimize_no_validation:
  "(expected_profits = [] \<longrightarrow>
      optimize orders expected_profits = Inr \<lparr>max_profit = lowest, optimal_order = 0\<rparr>)
   \<and> (length orders < length expected_profits \<longrightarrow>
      optimize orders expected_profits = Inl OutOfBounds)
   \<and> (length expected_profits < length orders \<longrightarrow>
      (\<exists>best. optimize orders expected_profits = Inr best)
      \<and> optimize orders expected_profits
        = optimize (take (length expected_profits) orders) expected_profits)"
proof (intro conjI impI)
  assume "expected_profits = []"
  then show "optimize orders expected_profits = Inr \<lparr>max_profit = lowest, optimal_order = 0\<rparr>"
    by (intro optimize_nothing_above_lowest) simp_all
next
  assume "length orders < length expected_profits"
  then show "optimize orders expected_profits = Inl OutOfBounds"
    unfolding optimize_def by (intro optimize_loop_short) simp_all
next
  assume "length expected_profits < length orders"
  then show "\<exists>best. optimize orders expected_profits = Inr best"
    unfolding optimize_def by (intro optimize_loop_total) simp
next
  assume "length expected_profits < length orders"
  then show "optimize orders expected_profits
             = optimize (take (length expected_profits) orders) expected_profits"
    unfolding optimize_def by (intro optimize_loop_take) simp
qed

theorem optimize_no_validation_witness:
  "optimize [100, 150] [] = Inr \<lparr>max_profit = lowest, optimal_order = 0\<rparr>
   \<and> optimize [] [Finite False 1] = Inl OutOfBounds
   \<and> optimize [100, 150] [Finite False 1] = optimize [100] [Finite False 1]"
  using optimize_no_validation [where expected_profits = "[]" and orders = "[100, 150]"]
        optimize_no_validation [where expected_profits = "[Finite False 1]" and orders = "[]"]
        optimize_no_validation [where expected_profits = "[Finite False 1]" and orders = "[100, 150]"]
  by simp

section \<open>The run on the inputs of \<open>main\<close>\<close>

text \<open>
  Claim C6.  On the orders and demands 100, 150, 200, 250, 300 and the probabilities
  0.1, 0.15, 0.25, 0.3, 0.2, the cell of the profit matrix for the order 100 and the
  demand 100 is 2400000 and the cell for the order 300 (row 4) and the demand 100 is
  400000; the expected values of these cells are their products with the first
  probability, the expected profits are the sums of the rows, and the scan returns the
  order 250 with the expected profit 4555000.
\<close>

theorem main_default_run:
  "calculate_profit 100 100 = Finite False 2400000
   \<and> calculate_profit 300 100 = Finite False 400000
   \<and> main_orders ! 0 = 100 \<and> main_orders ! 4 = 300 \<and> main_demands ! 0 = 100
   \<and> (\<exists>profit_matrix expected_values expected_profits.
         create_profit_matrix main_orders main_demands = Inr profit_matrix
         \<and> profit_matrix ! 0 ! 0 = Finite False 2400000
         \<and> profit_matrix ! 4 ! 0 = Finite False 400000
         \<and> calculate_expected_values profit_matrix main_probabilities = Inr expected_values
         \<and> expected_values ! 0 ! 0 = dmul (Finite False 2400000) (double_lit (1 / 10))
         \<and> expected_values ! 4 ! 0 = dmul (Finite False 400000) (double_lit (1 / 10))
         \<and> calculate_expected_profits expected_values = Inr expected_profits
         \<and> expected_profits = map (Finite False) [2400000, 3430000, 4205000, 4555000, 4395000]
         \<and> optimize main_orders expected_profits
           = Inr \<lparr>max_profit = Finite False 4555000, optimal_order = 250\<rparr>)
   \<and> main = Inr \<lparr>max_profit = Finite False 4555000, optimal_order = 250\<rparr>"
proof (intro conjI)
  show "calculate_profit 100 100 = Finite False 2400000"
    by (simp add: calculate_profit_exact profit_value_def)
  show "calculate_profit 300 100 = Finite False 400000"
    by (simp add: calculate_profit_exact profit_value_def)
  show "main_orders ! 0 = 100" "main_orders ! 4 = 300" "main_demands ! 0 = 100"
    by (simp_all add: main_orders_def main_demands_def)
  have p0: "double_lit (1 / 10) = main_probabilities ! 0"
    by (simp add: main_probabilities_def)
  show "\<exists>profit_matrix expected_values expected_profits.
         create_profit_matrix main_orders main_demands = Inr profit_matrix
         \<and> profit_matrix ! 0 ! 0 = Finite False 2400000
         \<and> profit_matrix ! 4 ! 0 = Finite False 400000
         \<and> calculate_expected_values profit_matrix main_probabilities = Inr expected_values
         \<and> expected_values ! 0 ! 0 = dmul (Finite False 2400000) (double_lit (1 / 10))
         \<and> expected_values ! 4 ! 0 = dmul (Finite False 400000) (double_lit (1 / 10))
         \<and> calculate_expected_profits expected_values = Inr expected_profits
         \<and> expected_profits = map (Finite False) [2400000, 3430000, 4205000, 4555000, 4395000]
         \<and> optimize main_orders expected_profits
           = Inr \<lparr>max_profit = Finite False 4555000, optimal_order = 250\<rparr>"
    unfolding main_profit_matrix p0
    by (intro exI conjI, rule refl, simp, simp, rule main_expected_values,
        simp add: main_probabilities_eq main_products del: dmul.simps,
        simp add: main_probabilities_eq main_products del: dmul.simps,
        rule main_expected_profits, rule refl, rule main_optimum)
  show "main = Inr \<lparr>max_profit = Finite False 4555000, optimal_order = 250\<rparr>"
    by (simp add: main_def pipeline_def main_profit_matrix main_expected_values
          main_expected_profits main_optimum del: map_map list.map)
qed

end
